theory Spec2Isabelle
  imports Main "HOL-Library.AList"
begin

section \<open>Python string primitives used by the dispatcher\<close>

text \<open>
  Python 2 \<^verbatim>\<open>str\<close> values are byte strings, modelled as \<^typ>\<open>string\<close>.
  \<^verbatim>\<open>s.rpartition(sep)\<close> splits at the last occurrence of \<^verbatim>\<open>sep\<close> and returns
  \<^verbatim>\<open>(head, sep, tail)\<close>; when \<^verbatim>\<open>sep\<close> does not occur it returns \<^verbatim>\<open>('', '', s)\<close>.
  Every separator in the source is a single character.
\<close>

definition str_rpartition :: "string \<Rightarrow> char \<Rightarrow> string \<times> string \<times> string" where
  "str_rpartition s sep =
     (if sep \<in> set s
      then (rev (tl (dropWhile (\<lambda>x. x \<noteq> sep) (rev s))), [sep],
            rev (takeWhile (\<lambda>x. x \<noteq> sep) (rev s)))
      else ([], [], s))"

text \<open>
  \<^verbatim>\<open>s.rsplit(sep, 1)\<close>: at most one split, made at the last occurrence of \<^verbatim>\<open>sep\<close>;
  a string without \<^verbatim>\<open>sep\<close> comes back whole, as the only element.
\<close>

definition str_rsplit1 :: "string \<Rightarrow> char \<Rightarrow> string list" where
  "str_rsplit1 s sep =
     (case str_rpartition s sep of
        (head, [], tail) \<Rightarrow> [tail]
      | (head, _ # _, tail) \<Rightarrow> [head, tail])"

text \<open>\<^verbatim>\<open>s.split(sep)\<close>: all the pieces between separators; never the empty list.\<close>

fun str_split :: "string \<Rightarrow> char \<Rightarrow> string list" where
  "str_split [] sep = [[]]"
| "str_split (x # xs) sep =
     (if x = sep then [] # str_split xs sep
      else (case str_split xs sep of
              [] \<Rightarrow> [[x]]
            | w # ws \<Rightarrow> (x # w) # ws))"

text \<open>
  \<^verbatim>\<open>repr\<close> of a Python 2 byte string: single quotes, unless the string holds a single
  quote and no double quote; the quote character and the backslash are escaped, tab,
  newline and carriage return are written symbolically, other bytes outside the
  printable ASCII range as \<^verbatim>\<open>\xNN\<close>.
\<close>

definition hex_digit :: "nat \<Rightarrow> char" where
  "hex_digit n = ''0123456789abcdef'' ! (n mod 16)"

definition repr_char :: "char \<Rightarrow> char \<Rightarrow> string" where
  "repr_char quote ch =
     (if ch = quote \<or> ch = CHR 0x5C then [CHR 0x5C, ch]
      else if ch = CHR 0x09 then [CHR 0x5C, CHR ''t'']
      else if ch = CHR 0x0A then [CHR 0x5C, CHR ''n'']
      else if ch = CHR 0x0D then [CHR 0x5C, CHR ''r'']
      else if (of_char ch :: nat) < 32 \<or> (of_char ch :: nat) \<ge> 127
        then [CHR 0x5C, CHR ''x'', hex_digit (of_char ch div 16), hex_digit (of_char ch)]
      else [ch])"

definition repr_str :: "string \<Rightarrow> string" where
  "repr_str s =
     (let quote = (if CHR 0x27 \<in> set s \<and> CHR 0x22 \<notin> set s then CHR 0x22 else CHR 0x27)
      in quote # concat (map (repr_char quote) s) @ [quote])"

definition repr_note :: "string option \<Rightarrow> string" where
  "repr_note note = (case note of None \<Rightarrow> ''None'' | Some s \<Rightarrow> repr_str s)"


section \<open>microhttpd: responses, handlers and bindings\<close>

text \<open>
  The status under key \<^verbatim>\<open>'c'\<close> is a Python int object. \<^verbatim>\<open>do_all\<close> compares it with
  \<^verbatim>\<open>httplib.NOT_FOUND\<close> by identity (\<^verbatim>\<open>is\<close>), so the model keeps that one object apart
  from every other int object: \<open>NOT_FOUND\<close> is the constant of \<^verbatim>\<open>httplib\<close>, \<open>Status n\<close>
  any other int object of value \<open>n\<close>.
\<close>

datatype status = NOT_FOUND | Status int

fun status_val :: "status \<Rightarrow> int" where
  "status_val NOT_FOUND = 404"
| "status_val (Status n) = n"

definition OK :: status where "OK = Status 200"
definition CONTINUE :: status where "CONTINUE = Status 100"
definition BAD_REQUEST :: status where "BAD_REQUEST = Status 400"

datatype header_value = HStr string | HInt nat

text \<open>
  The dictionary a handler returns: each of the keys \<^verbatim>\<open>'r'\<close>, \<^verbatim>\<open>'c'\<close>, \<^verbatim>\<open>'h'\<close> is optional.
  For \<^verbatim>\<open>'r'\<close> and \<^verbatim>\<open>'h'\<close> a missing key and the value \<^verbatim>\<open>None\<close> behave alike in \<^verbatim>\<open>do_all\<close>
  (the defaults are \<^verbatim>\<open>None\<close>); for \<^verbatim>\<open>'c'\<close>, \<open>None\<close> stands for the missing key.
\<close>

record response =
  resp_r :: "string option"
  resp_c :: "status option"
  resp_h :: "(string \<times> header_value) list option"

text \<open>
  A handler is a Python function object, called as
  \<^verbatim>\<open>handler(type, match, ext, rest, note)\<close>. The binding table stores the object itself;
  \<open>'h\<close> is the type of these objects. The value stored in \<^verbatim>\<open>self.bindings[url]\<close> is
  \<^verbatim>\<open>{"method": method, "note": note}\<close>.
\<close>

record 'h binding =
  method_of :: 'h
  note_of :: "string option"

text \<open>
  \<^verbatim>\<open>class Dispatch\<close>. The dictionary \<^verbatim>\<open>self.bindings\<close> is kept as an association list,
  so that "one binding per key" is a property to prove; a lookup is \<^const>\<open>map_of\<close>.
\<close>

record 'h dispatch =
  bindings :: "(string \<times> 'h binding) list"
  default_attr :: "'h binding option"
  baseurl :: string

text \<open>
  What a call of a function object does. Besides its five arguments a handler can reach
  the dispatcher through the module global \<^verbatim>\<open>server.dispatch\<close> (as \<^verbatim>\<open>urltest\<close> does), read it
  and call its methods; so the behaviour of a handler takes the dispatcher as it is at
  the call and gives the returned dictionary together with the dispatcher as the handler
  leaves it. A handler that raises or never returns is outside this type.
\<close>

type_synonym 'h behaviour =
  "'h \<Rightarrow> string \<Rightarrow> string \<Rightarrow> string \<Rightarrow> string \<Rightarrow> string option \<Rightarrow> 'h dispatch
     \<Rightarrow> response \<times> 'h dispatch"

definition Dispatch_init :: "'h dispatch" where
  "Dispatch_init = \<lparr>bindings = [], default_attr = None, baseurl = []\<rparr>"


definition get_baseurl :: "'h dispatch \<Rightarrow> string" where
  "get_baseurl self = baseurl self"

definition munge_url :: "'h dispatch \<Rightarrow> string \<Rightarrow> string" where
  "munge_url self url = baseurl self @ url"

definition bind :: "'h dispatch \<Rightarrow> string \<Rightarrow> 'h \<Rightarrow> string option \<Rightarrow> 'h dispatch" where
  "bind self url method note =
     self\<lparr>bindings := AList.update url \<lparr>method_of = method, note_of = note\<rparr> (bindings self)\<rparr>"



text \<open>
  The sample handlers of the module, \<^verbatim>\<open>echo\<close> and \<^verbatim>\<open>urltest\<close>, as function objects with
  their behaviour. Neither changes the dispatcher; \<^verbatim>\<open>urltest\<close> reads its base url. (The
  third sample, \<^verbatim>\<open>exit\<close>, ends the process and returns nothing.)
\<close>

datatype sample = echo | urltest

fun sample_behaviour :: "sample behaviour" where
  "sample_behaviour echo type match ext rest note server_dispatch =
     (\<lparr>resp_r = Some (''echo type:'' @ type @ '' match:'' @ match @ '' ext:'' @ ext
                       @ '' rest:'' @ rest @ '' note:'' @ repr_note note),
       resp_c = None,
       resp_h = Some [(''Content-type'', HStr ''text/plain'')]\<rparr>,
      server_dispatch)"
| "sample_behaviour urltest type match ext rest note server_dispatch =
     (\<lparr>resp_r = Some (''<html><body>urltest: '' @ ''/urltest -> <a href='' @ [CHR 0x22]
                       @ munge_url server_dispatch ''/urltest'' @ ''>''
                       @ munge_url server_dispatch ''/urltest'' @ ''</a></body></html>''),
       resp_c = None,
       resp_h = Some [(''Content-type'', HStr ''text/html;charset=utf-8'')]\<rparr>,
      server_dispatch)"

text \<open>
  A handler that an application can bind, not one of the module's own:
  \<^verbatim>\<open>def once(type, match, ext, rest, note): server.dispatch.unbind(match); return {}\<close>.
\<close>

datatype app = once



section \<open>microhttpd: Dispatch.call\<close>

text \<open>
  The first statement of the loop body: when the last \<^verbatim>\<open>/\<close>-piece of \<open>match\<close> has no dot,
  \<open>match\<close> stays and \<open>ext\<close> is empty; otherwise \<open>ext\<close> is the dot and what follows the last
  dot of \<open>match\<close>, and \<open>match\<close> is cut before that dot. The result is the pair
  \<open>(match, ext)\<close> after the statement.
\<close>

definition strip_ext :: "string \<Rightarrow> string \<times> string" where
  "strip_ext match =
     (if snd (snd (str_rpartition (last (str_split match CHR ''/'')) CHR ''.''))
           = last (str_split match CHR ''/'')
      then (match, [])
      else (fst (str_rpartition match CHR ''.''),
            CHR ''.'' # snd (snd (str_rpartition match CHR ''.''))))"

text \<open>
  \<^verbatim>\<open>call\<close> ends in one of three ways: the handler call inside the loop, the handler call
  of the \<^verbatim>\<open>"default"\<close> binding, or the 404 dictionary. A \<open>route\<close> records which one, with
  the binding taken from the table and the arguments \<open>type\<close>, \<open>match\<close>, \<open>ext\<close>, \<open>rest\<close>
  (\<open>match\<close> and \<open>ext\<close> are both \<^verbatim>\<open>''\<close> in the default call).
\<close>

datatype 'h route =
    Bound "'h binding" string string string string
  | Default "'h binding" string string
  | Not_found

text \<open>
  The \<^verbatim>\<open>while len(match) > 0\<close> loop. Nothing in the source bounds the number of
  iterations, so the loop is a partial function: \<open>None\<close> is a loop that never ends,
  \<open>Some (Some rt)\<close> a \<^verbatim>\<open>return\<close> from inside the loop, \<open>Some None\<close> the normal exit.
  The argument \<open>table\<close> is \<^verbatim>\<open>self.bindings\<close>.
\<close>

partial_function (option) call_loop ::
  "(string \<times> 'h binding) list \<Rightarrow> string \<Rightarrow> string \<Rightarrow> string \<Rightarrow> string
     \<Rightarrow> 'h route option option"
where
  "call_loop table url type data match =
     (if length match > 0 then
        (case strip_ext match of (match', ext) \<Rightarrow>
           (case map_of table match' of
              Some b \<Rightarrow>
                Some (Some (Bound b type match' ext
                  (if type \<noteq> ''PUT'' then drop (length (match' @ ext)) url else data)))
            | None \<Rightarrow> call_loop table url type data (hd (str_rsplit1 match' CHR ''/''))))
      else Some None)"

definition call_route ::
  "(string \<times> 'h binding) list \<Rightarrow> string \<Rightarrow> string \<Rightarrow> string \<Rightarrow> 'h route option"
where
  "call_route table url type data =
     (case call_loop table url type data (hd (str_rsplit1 url CHR ''?'')) of
        None \<Rightarrow> None
      | Some (Some rt) \<Rightarrow> Some rt
      | Some None \<Rightarrow>
          (case map_of table ''default'' of
             Some b \<Rightarrow> Some (Default b type (if type \<noteq> ''PUT'' then url else data))
           | None \<Rightarrow> Some Not_found))"

text \<open>
  The three ways out of \<^verbatim>\<open>call\<close>, performed: the handler of the binding is called with
  the recorded arguments and the note of the binding, or the 404 dictionary is built.
  The result is the returned dictionary and the dispatcher after the handler has run.
\<close>

fun perform :: "'h behaviour \<Rightarrow> 'h route \<Rightarrow> 'h dispatch \<Rightarrow> response \<times> 'h dispatch" where
  "perform behave (Bound b type match ext rest) self =
     behave (method_of b) type match ext rest (note_of b) self"
| "perform behave (Default b type rest) self =
     behave (method_of b) type [] [] rest (note_of b) self"
| "perform behave Not_found self =
     (\<lparr>resp_r = None, resp_c = Some NOT_FOUND, resp_h = None\<rparr>, self)"

text \<open>
  \<^verbatim>\<open>Dispatch.call(url, type, data)\<close> with the object passed explicitly: the result is the
  returned dictionary and the object after the call. \<open>behave\<close> gives the behaviour of the
  function objects in the table.
\<close>

definition call ::
  "'h behaviour \<Rightarrow> 'h dispatch \<Rightarrow> string \<Rightarrow> string \<Rightarrow> string \<Rightarrow> (response \<times> 'h dispatch) option"
where
  "call behave self url type data =
     (case call_route (bindings self) url type data of
        None \<Rightarrow> None
      | Some rt \<Rightarrow> Some (perform behave rt self))"



section \<open>microhttpd: MyHTTPRequestHandler\<close>

text \<open>
  What the handler reads of a request: the path, the \<^verbatim>\<open>Content-Length\<close> header as an
  integer (\<open>None\<close> when the header is missing or \<^verbatim>\<open>int\<close> rejects it) and the bytes waiting
  on \<^verbatim>\<open>rfile\<close>. What it does to the connection is a list of events, in order.
  Printing to standard output (the \<^verbatim>\<open>Debug\<close> traces) does not touch the connection
  and is left out.
\<close>

record request =
  path :: string
  content_length :: "int option"
  rfile :: string

datatype event =
    Send_response int string
  | Send_error int string
  | Send_header string header_value
  | End_headers
  | Wfile_write string
  | Connection_close
  | SimpleHTTP_do_GET

text \<open>
  \<^verbatim>\<open>do_all\<close> returns \<^verbatim>\<open>None\<close> or \<^verbatim>\<open>True\<close>, or dies with the \<^verbatim>\<open>KeyError\<close> of a status that
  \<^verbatim>\<open>httplib.responses\<close> does not list.
\<close>

datatype outcome = Returned "bool option" | Raised_KeyError

text \<open>
  The body read for a \<^verbatim>\<open>PUT\<close>: \<^verbatim>\<open>rfile.read(size)\<close>, everything when the size is negative;
  any exception gives the empty string.
\<close>

definition read_data :: "request \<Rightarrow> string" where
  "read_data req =
     (case content_length req of
        None \<Rightarrow> []
      | Some size' \<Rightarrow> if size' < 0 then rfile req else take (nat size') (rfile req))"

text \<open>
  \<^verbatim>\<open>do_all(type)\<close>. The table \<^verbatim>\<open>httplib.responses\<close> belongs to the standard library and is
  the parameter \<open>responses\<close>. The result is \<open>None\<close> when \<^verbatim>\<open>dispatch.call\<close> does not return.
  The result reports the returned value and the connection; the dispatcher after the
  call is not part of it.
\<close>

definition do_all ::
  "(int \<Rightarrow> string option) \<Rightarrow> 'h behaviour \<Rightarrow> 'h dispatch \<Rightarrow> request \<Rightarrow> string
     \<Rightarrow> (outcome \<times> event list) option"
where
  "do_all responses behave self req type =
     (case (if type = ''PUT''
            then (case responses (status_val CONTINUE) of
                    None \<Rightarrow> Inl Raised_KeyError
                  | Some msg \<Rightarrow> Inr ([Send_response (status_val CONTINUE) msg], read_data req))
            else Inr ([], [])) of
        Inl err \<Rightarrow> Some (err, [])
      | Inr (out, data) \<Rightarrow>
          (case call behave self (path req) type data of
             None \<Rightarrow> None
           | Some (result, _) \<Rightarrow>
               (let r_r = resp_r result;
                    r_c = (case resp_c result of None \<Rightarrow> OK | Some c \<Rightarrow> c);
                    r_h = resp_h result
                in if r_c = NOT_FOUND then Some (Returned None, out)
                   else
                     (case responses (status_val r_c) of
                        None \<Rightarrow> Some (Raised_KeyError, out)
                      | Some msg \<Rightarrow>
                          (let out1 = out @ [if status_val r_c \<ge> status_val BAD_REQUEST
                                             then Send_error (status_val r_c) msg
                                             else Send_response (status_val r_c) msg];
                               cl = (case r_r of Some body \<Rightarrow> length body | None \<Rightarrow> 0);
                               hs = (case r_h of
                                       None \<Rightarrow> [(''Content-Length'', HInt cl)]
                                     | Some l \<Rightarrow> l @ [(''Content-Length'', HInt cl)]);
                               out2 = out1 @ map (\<lambda>header. Send_header (fst header) (snd header)) hs
                                        @ [End_headers];
                               out3 = (case r_r of
                                         Some body \<Rightarrow> out2 @ [Wfile_write body]
                                       | None \<Rightarrow> out2)
                           in Some (Returned (Some True), out3 @ [Connection_close]))))))"

text \<open>
  The four entry points give the events on the connection. \<^verbatim>\<open>do_POST\<close>, \<^verbatim>\<open>do_PUT\<close> and
  \<^verbatim>\<open>do_DELETE\<close> drop the value of \<^verbatim>\<open>do_all\<close>; \<^verbatim>\<open>do_GET\<close> hands the request to
  \<^verbatim>\<open>SimpleHTTPRequestHandler.do_GET\<close> when the value is \<^verbatim>\<open>None\<close>.
\<close>

definition do_POST ::
  "(int \<Rightarrow> string option) \<Rightarrow> 'h behaviour \<Rightarrow> 'h dispatch \<Rightarrow> request \<Rightarrow> event list option"
where
  "do_POST responses behave self req = map_option snd (do_all responses behave self req ''POST'')"

definition do_PUT ::
  "(int \<Rightarrow> string option) \<Rightarrow> 'h behaviour \<Rightarrow> 'h dispatch \<Rightarrow> request \<Rightarrow> event list option"
where
  "do_PUT responses behave self req = map_option snd (do_all responses behave self req ''PUT'')"

definition do_DELETE ::
  "(int \<Rightarrow> string option) \<Rightarrow> 'h behaviour \<Rightarrow> 'h dispatch \<Rightarrow> request \<Rightarrow> event list option"
where
  "do_DELETE responses behave self req = map_option snd (do_all responses behave self req ''DELETE'')"

definition do_GET ::
  "(int \<Rightarrow> string option) \<Rightarrow> 'h behaviour \<Rightarrow> 'h dispatch \<Rightarrow> request \<Rightarrow> event list option"
where
  "do_GET responses behave self req =
     (case do_all responses behave self req ''GET'' of
        None \<Rightarrow> None
      | Some (res, out) \<Rightarrow>
          Some (if res = Returned None then out @ [SimpleHTTP_do_GET] else out))"


section \<open>debugging: Debug, DebugSet, DebugUnset\<close>

text \<open>
  The module state: the dictionary \<^verbatim>\<open>__vars\<close> and the flag \<^verbatim>\<open>__debug\<close> (read for its
  truth value only). Each function takes the state; the two that assign return the new
  one. The default argument of all three is the one-blank string.
\<close>

record debug_state =
  vars :: "string \<rightharpoonup> string"
  debug :: bool

definition Debug :: "debug_state \<Rightarrow> string \<Rightarrow> bool" where
  "Debug st name = (name \<in> dom (vars st))"

definition DebugSet :: "debug_state \<Rightarrow> string \<Rightarrow> bool \<times> debug_state" where
  "DebugSet st name = (True, st\<lparr>debug := True, vars := (vars st)(name \<mapsto> name)\<rparr>)"

definition DebugUnset :: "debug_state \<Rightarrow> string \<Rightarrow> debug_state" where
  "DebugUnset st name =
     (if name = '' '' then st\<lparr>debug := False, vars := Map.empty\<rparr>
      else (case vars st name of
              Some _ \<Rightarrow> st\<lparr>vars := (vars st)(name := None)\<rparr>
            | None \<Rightarrow> st))"

text \<open>A later call of one of the three functions, and the state after a list of them.\<close>

datatype debug_call = Call_Debug string | Call_DebugSet string | Call_DebugUnset string

fun debug_step :: "debug_state \<Rightarrow> debug_call \<Rightarrow> debug_state" where
  "debug_step st (Call_Debug name) = st"
| "debug_step st (Call_DebugSet name) = snd (DebugSet st name)"
| "debug_step st (Call_DebugUnset name) = DebugUnset st name"

definition debug_run :: "debug_state \<Rightarrow> debug_call list \<Rightarrow> debug_state" where
  "debug_run st calls = foldl debug_step st calls"


section \<open>Facts about the string primitives\<close>

lemma rpart_last:
  "sep \<notin> set t \<Longrightarrow> str_rpartition (h @ sep # t) sep = (h, [sep], t)"
  by (simp add: str_rpartition_def takeWhile_append dropWhile_append)

lemma rpart_none: "sep \<notin> set s \<Longrightarrow> str_rpartition s sep = ([], [], s)"
  by (simp add: str_rpartition_def)

lemma split_lastE:
  assumes "sep \<in> set s"
  obtains h t where "s = h @ sep # t" "sep \<notin> set t"
proof -
  from split_list_last [OF assms] obtain h t where "s = h @ sep # t \<and> sep \<notin> set t"
    by (elim exE)
  then have "s = h @ sep # t" and "sep \<notin> set t" by (rule conjunct1, rule conjunct2)
  then show thesis by (rule that)
qed

lemma rsplit1_last: "sep \<notin> set t \<Longrightarrow> str_rsplit1 (h @ sep # t) sep = [h, t]"
  by (simp add: str_rsplit1_def rpart_last)

lemma rsplit1_none: "sep \<notin> set s \<Longrightarrow> str_rsplit1 s sep = [s]"
  by (simp add: str_rsplit1_def rpart_none)

lemma str_split_nonempty: "str_split s sep \<noteq> []"
  by (induction s) (auto split: list.splits)

lemma last_split_none: "sep \<notin> set s \<Longrightarrow> str_split s sep = [s]"
  by (induction s) (auto split: list.splits)

lemma split_len2: "sep \<in> set s \<Longrightarrow> \<exists>w v vs. str_split s sep = w # v # vs"
proof (induction s)
  case Nil
  then show ?case by simp
next
  case (Cons a s)
  show ?case
  proof (cases "a = sep")
    case True
    then show ?thesis
      using str_split_nonempty [of s sep] by (cases "str_split s sep") auto
  next
    case False
    with Cons.prems have "sep \<in> set s" by simp
    then obtain w v vs where "str_split s sep = w # v # vs"
      using Cons.IH by blast
    with False show ?thesis by simp
  qed
qed

lemma last_split_app: "last (str_split (h @ sep # t) sep) = last (str_split t sep)"
proof (induction h)
  case Nil
  then show ?case by (simp add: str_split_nonempty)
next
  case (Cons a h)
  show ?case
  proof (cases "a = sep")
    case True
    then show ?thesis using Cons.IH by (simp add: str_split_nonempty)
  next
    case False
    obtain w v vs where "str_split (h @ sep # t) sep = w # v # vs"
      using split_len2 [of sep "h @ sep # t"] by auto
    with False Cons.IH show ?thesis by simp
  qed
qed

lemma last_split_last: "sep \<notin> set t \<Longrightarrow> last (str_split (h @ sep # t) sep) = t"
  by (simp add: last_split_app last_split_none)


lemma last_split_subset: "set (last (str_split s sep)) \<subseteq> set s"
proof (cases "sep \<in> set s")
  case True
  then obtain h t where dec: "s = h @ sep # t" "sep \<notin> set t"
    by (rule split_lastE)
  have "last (str_split (h @ sep # t) sep) = t"
    using dec(2) by (rule last_split_last)
  then have "set (last (str_split (h @ sep # t) sep)) \<subseteq> set (h @ sep # t)"
    by auto
  then show ?thesis unfolding dec(1) .
next
  case False
  then show ?thesis by (simp add: last_split_none)
qed

lemma strip_ext_nodot:
  assumes "CHR ''.'' \<notin> set (last (str_split m CHR ''/''))"
  shows "strip_ext m = (m, [])"
  using assms by (simp add: strip_ext_def rpart_none)

lemma strip_ext_dot:
  assumes "CHR ''.'' \<in> set (last (str_split m CHR ''/''))"
  shows "\<exists>pre suf. m = pre @ CHR ''.'' # suf \<and> CHR ''.'' \<notin> set suf \<and> CHR ''/'' \<notin> set suf
           \<and> strip_ext m = (pre, CHR ''.'' # suf)"
proof -
  define seg where "seg = last (str_split m CHR ''/'')"
  have "CHR ''.'' \<in> set seg" using assms by (simp add: seg_def)
  then obtain h t where seg: "seg = h @ CHR ''.'' # t" "CHR ''.'' \<notin> set t"
    by (rule split_lastE)
  have neq: "snd (snd (str_rpartition seg CHR ''.'')) \<noteq> seg"
    using seg by (simp add: rpart_last)
  have "\<exists>a. m = a @ seg \<and> CHR ''/'' \<notin> set seg"
  proof (cases "CHR ''/'' \<in> set m")
    case True
    then obtain a b where "m = a @ CHR ''/'' # b" "CHR ''/'' \<notin> set b"
      by (rule split_lastE)
    then have "m = (a @ [CHR ''/'']) @ seg \<and> CHR ''/'' \<notin> set seg"
      by (simp add: seg_def last_split_last)
    then show ?thesis by blast
  next
    case False
    then have "m = [] @ seg \<and> CHR ''/'' \<notin> set seg"
      by (simp add: seg_def last_split_none)
    then show ?thesis by blast
  qed
  then obtain a where a: "m = a @ seg" "CHR ''/'' \<notin> set seg" by blast
  have m: "m = (a @ h) @ CHR ''.'' # t" using a seg by simp
  have "str_rpartition m CHR ''.'' = (a @ h, [CHR ''.''], t)"
    using seg(2) by (subst m) (rule rpart_last)
  then have "strip_ext m = (a @ h, CHR ''.'' # t)"
    using neq by (simp add: strip_ext_def seg_def)
  moreover have "CHR ''/'' \<notin> set t" using a(2) seg(1) by simp
  ultimately show ?thesis using m seg(2) by blast
qed

lemma strip_ext_app: "strip_ext m = (m', e) \<Longrightarrow> m = m' @ e"
proof (cases "CHR ''.'' \<in> set (last (str_split m CHR ''/''))")
  case True
  assume "strip_ext m = (m', e)"
  with strip_ext_dot [OF True] show ?thesis by auto
next
  case False
  assume "strip_ext m = (m', e)"
  with strip_ext_nodot [OF False] show ?thesis by simp
qed



section \<open>The matching loop, step by step\<close>

lemma call_loop_Nil: "call_loop t u ty d [] = Some None"
  by (subst call_loop.simps) simp


lemma call_loop_hit:
  "m \<noteq> [] \<Longrightarrow> strip_ext m = (m', e) \<Longrightarrow> map_of t m' = Some b \<Longrightarrow>
   call_loop t u ty d m =
     Some (Some (Bound b ty m' e (if ty \<noteq> ''PUT'' then drop (length (m' @ e)) u else d)))"
  by (subst call_loop.simps) simp


lemma call_loop_miss:
  "m \<noteq> [] \<Longrightarrow> strip_ext m = (m', e) \<Longrightarrow> map_of t m' = None \<Longrightarrow>
   call_loop t u ty d m = call_loop t u ty d (hd (str_rsplit1 m' CHR ''/''))"
  by (subst call_loop.simps) simp


lemma call_loop_total:
  "m = [] \<or> hd m = CHR ''/'' \<Longrightarrow> \<exists>r. call_loop t u ty d m = Some r"
proof (induction m rule: length_induct)
  case (1 m)
  show ?case
  proof (cases "m = []")
    case True
    then show ?thesis by (simp add: call_loop_Nil)
  next
    case False
    with "1.prems" have hd: "hd m = CHR ''/''" by simp
    obtain m' e where se: "strip_ext m = (m', e)" by (cases "strip_ext m")
    have app: "m = m' @ e" using se by (rule strip_ext_app)
    have m'ne: "m' \<noteq> []"
    proof (cases "CHR ''.'' \<in> set (last (str_split m CHR ''/''))")
      case True
      from strip_ext_dot [OF True] se obtain suf where "m = m' @ CHR ''.'' # suf" by auto
      with hd False show ?thesis by (cases m') auto
    next
      case False
      with se \<open>m \<noteq> []\<close> show ?thesis by (simp add: strip_ext_nodot)
    qed
    then have hd': "hd m' = CHR ''/''" using hd app by (cases m') auto
    show ?thesis
    proof (cases "map_of t m'")
      case (Some b)
      then show ?thesis using call_loop_hit [OF False se Some] by simp
    next
      case None
      have "CHR ''/'' \<in> set m'" using m'ne hd' by (cases m') auto
      then obtain h tl where dec: "m' = h @ CHR ''/'' # tl" "CHR ''/'' \<notin> set tl"
        by (rule split_lastE)
      then have nxt: "hd (str_rsplit1 m' CHR ''/'') = h" by (simp add: rsplit1_last)
      have "length h < length m" using dec app by simp
      moreover have "h = [] \<or> hd h = CHR ''/''" using dec hd' by (cases h) auto
      ultimately obtain r where "call_loop t u ty d h = Some r"
        using "1.IH" by blast
      then show ?thesis using call_loop_miss [OF False se None] nxt by simp
    qed
  qed
qed


lemma call_loop_stuck_aux:
  fixes t :: "(string \<times> 'h binding) list"
  assumes ret: "call_loop t u ty d m = Some y"
  shows "\<not> (m \<noteq> [] \<and> CHR ''/'' \<notin> set m \<and> CHR ''.'' \<notin> set m \<and> map_of t m = None)"
proof (rule call_loop.raw_induct
    [where P = "\<lambda>t u ty d m y. \<not> (m \<noteq> [] \<and> CHR ''/'' \<notin> set m \<and> CHR ''.'' \<notin> set m
                                   \<and> map_of t m = None)", OF _ ret])
  fix f :: "(string \<times> 'h binding) list \<Rightarrow> string \<Rightarrow> string \<Rightarrow> string \<Rightarrow> string
              \<Rightarrow> 'h route option option"
  fix t u ty d m y
  assume IH: "\<And>t u ty d m y. f t u ty d m = Some y \<Longrightarrow>
     \<not> (m \<noteq> [] \<and> CHR ''/'' \<notin> set m \<and> CHR ''.'' \<notin> set m \<and> map_of t m = None)"
  assume body: "(if 0 < length m then
        (case strip_ext m of (match', ext) \<Rightarrow>
           (case map_of t match' of
              None \<Rightarrow> f t u ty d (hd (str_rsplit1 match' CHR ''/''))
            | Some b \<Rightarrow>
                Some (Some (Bound b ty match' ext
                  (if ty \<noteq> ''PUT'' then drop (length (match' @ ext)) u else d)))))
      else Some None) = Some y"
  show "\<not> (m \<noteq> [] \<and> CHR ''/'' \<notin> set m \<and> CHR ''.'' \<notin> set m \<and> map_of t m = None)"
  proof
    assume c: "m \<noteq> [] \<and> CHR ''/'' \<notin> set m \<and> CHR ''.'' \<notin> set m \<and> map_of t m = None"
    have "CHR ''.'' \<notin> set (last (str_split m CHR ''/''))"
      using c last_split_subset [of m "CHR ''/''"] by blast
    then have se: "strip_ext m = (m, [])" by (rule strip_ext_nodot)
    have "hd (str_rsplit1 m CHR ''/'') = m" using c by (simp add: rsplit1_none)
    with body c se have "f t u ty d m = Some y" by simp
    from IH [OF this] c show False by blast
  qed
qed


lemma call_loop_stuck:
  "m \<noteq> [] \<Longrightarrow> CHR ''/'' \<notin> set m \<Longrightarrow> CHR ''.'' \<notin> set m \<Longrightarrow> map_of t m = None \<Longrightarrow>
   call_loop t u ty d m = None"
  using call_loop_stuck_aux [of t u ty d m] by (cases "call_loop t u ty d m") auto


section \<open>Termination of the matching loop\<close>

text \<open>
  Claim C2 says that the backward-truncation loop of \<^verbatim>\<open>call\<close> ends for every url and
  every binding table, because a match without \<^verbatim>\<open>/\<close> is truncated to the empty string.
  In the source \<^verbatim>\<open>match.rsplit('/', 1)[0]\<close> returns a string without \<^verbatim>\<open>/\<close> unchanged, so
  the loop never ends on such a match when it is not bound: with an empty table,
  \<^verbatim>\<open>call("abc", "GET", "")\<close> does not return.
\<close>

theorem call_never_returns_on_slashless_url:
  "call_route [] ''abc'' ''GET'' [] = None
   \<and> call behave Dispatch_init ''abc'' ''GET'' [] = None"
  by (simp add: call_def Dispatch_init_def call_route_def call_loop_stuck
        str_rsplit1_def str_rpartition_def)


section \<open>Backward matching at segment boundaries\<close>

lemma strip_ext_abc: "strip_ext ''/a/b/c'' = (''/a/b/c'', [])"
  by (simp add: strip_ext_def str_rpartition_def)
lemma strip_ext_ab: "strip_ext ''/a/b'' = (''/a/b'', [])"
  by (simp add: strip_ext_def str_rpartition_def)
lemma rsplit_slash_abc: "hd (str_rsplit1 ''/a/b/c'' CHR ''/'') = ''/a/b''"
  by (simp add: str_rsplit1_def str_rpartition_def)
lemma rsplit_query_abc: "hd (str_rsplit1 ''/a/b/c'' CHR ''?'') = ''/a/b/c''"
  by (simp add: str_rsplit1_def str_rpartition_def)

lemma call_route_backward_segment_match:
  "(map_of table ''/a/b'' = Some b \<and> map_of table ''/a/b/c'' = None \<longrightarrow>
      call_route table ''/a/b/c'' type data =
        Some (Bound b type ''/a/b'' [] (if type \<noteq> ''PUT'' then ''/c'' else data)))
   \<and> (map_of table ''/foo/bartsimpson'' = None \<longrightarrow>
      call_route table ''/foo/bartsimpson'' type data =
        Some (case map_of table ''/foo'' of
                Some f \<Rightarrow>
                  Bound f type ''/foo'' [] (if type \<noteq> ''PUT'' then ''/bartsimpson'' else data)
              | None \<Rightarrow>
                  (case map_of table ''default'' of
                     Some dflt \<Rightarrow>
                       Default dflt type (if type \<noteq> ''PUT'' then ''/foo/bartsimpson'' else data)
                   | None \<Rightarrow> Not_found)))"
proof (intro conjI impI)
  assume a: "map_of table ''/a/b'' = Some b \<and> map_of table ''/a/b/c'' = None"
  have "call_loop table ''/a/b/c'' type data ''/a/b/c''
          = call_loop table ''/a/b/c'' type data ''/a/b''"
    using call_loop_miss [of "''/a/b/c''" "''/a/b/c''" "[]" table] a
    by (simp add: strip_ext_abc rsplit_slash_abc)
  also have "\<dots> = Some (Some (Bound b type ''/a/b'' []
                (if type \<noteq> ''PUT'' then ''/c'' else data)))"
    using call_loop_hit [of "''/a/b''" "''/a/b''" "[]" table b "''/a/b/c''" type data] a
    by (simp add: strip_ext_ab)
  finally show "call_route table ''/a/b/c'' type data =
        Some (Bound b type ''/a/b'' [] (if type \<noteq> ''PUT'' then ''/c'' else data))"
    by (simp add: call_route_def rsplit_query_abc)
next
  assume a: "map_of table ''/foo/bartsimpson'' = None"
  have s1: "strip_ext ''/foo/bartsimpson'' = (''/foo/bartsimpson'', [])"
    by (simp add: strip_ext_def str_rpartition_def)
  have s2: "strip_ext ''/foo'' = (''/foo'', [])"
    by (simp add: strip_ext_def str_rpartition_def)
  have r1: "hd (str_rsplit1 ''/foo/bartsimpson'' CHR ''/'') = ''/foo''"
    by (simp add: str_rsplit1_def str_rpartition_def)
  have r2: "hd (str_rsplit1 ''/foo'' CHR ''/'') = []"
    by (simp add: str_rsplit1_def str_rpartition_def)
  have r3: "hd (str_rsplit1 ''/foo/bartsimpson'' CHR ''?'') = ''/foo/bartsimpson''"
    by (simp add: str_rsplit1_def str_rpartition_def)
  have step: "call_loop table ''/foo/bartsimpson'' type data ''/foo/bartsimpson''
          = call_loop table ''/foo/bartsimpson'' type data ''/foo''"
    using call_loop_miss [of "''/foo/bartsimpson''" "''/foo/bartsimpson''" "[]" table] a
    by (simp add: s1 r1)
  show "call_route table ''/foo/bartsimpson'' type data =
        Some (case map_of table ''/foo'' of
                Some f \<Rightarrow>
                  Bound f type ''/foo'' [] (if type \<noteq> ''PUT'' then ''/bartsimpson'' else data)
              | None \<Rightarrow>
                  (case map_of table ''default'' of
                     Some dflt \<Rightarrow>
                       Default dflt type (if type \<noteq> ''PUT'' then ''/foo/bartsimpson'' else data)
                   | None \<Rightarrow> Not_found))"
  proof (cases "map_of table ''/foo''")
    case (Some f)
    have "call_loop table ''/foo/bartsimpson'' type data ''/foo''
            = Some (Some (Bound f type ''/foo'' []
                (if type \<noteq> ''PUT'' then ''/bartsimpson'' else data)))"
      using call_loop_hit [of "''/foo''" "''/foo''" "[]" table f "''/foo/bartsimpson''" type data] Some
      by (simp add: s2)
    then show ?thesis using Some step by (simp add: call_route_def r3)
  next
    case None
    have "call_loop table ''/foo/bartsimpson'' type data ''/foo''
            = call_loop table ''/foo/bartsimpson'' type data []"
      using call_loop_miss [of "''/foo''" "''/foo''" "[]" table] None
      by (simp add: s2 r2)
    then show ?thesis using None step
      by (simp add: call_route_def r3 call_loop_Nil split: option.splits)
  qed
qed

text \<open>
  Claim C1, amended. With a binding at \<^verbatim>\<open>/a/b\<close> and none at \<^verbatim>\<open>/a/b/c\<close>, \<^verbatim>\<open>call("/a/b/c", type, data)\<close>
  calls that binding's handler with match \<^verbatim>\<open>/a/b\<close>, an empty extension and, for every type
  other than \<^verbatim>\<open>PUT\<close>, rest \<^verbatim>\<open>/c\<close>, and returns what the handler returns; for \<^verbatim>\<open>PUT\<close> the rest
  is the request body. With no binding at \<^verbatim>\<open>/foo/bartsimpson\<close>, \<^verbatim>\<open>call("/foo/bartsimpson", ...)\<close>
  never reaches a binding at \<^verbatim>\<open>/foo/bar\<close>: it calls the handler bound at \<^verbatim>\<open>/foo\<close> if there is
  one, else the handler of the default binding, else it returns the 404 dictionary.
\<close>

theorem call_backward_segment_match:
  "(map_of (bindings self) ''/a/b'' = Some b \<and> map_of (bindings self) ''/a/b/c'' = None \<longrightarrow>
      call_route (bindings self) ''/a/b/c'' type data =
        Some (Bound b type ''/a/b'' [] (if type \<noteq> ''PUT'' then ''/c'' else data))
      \<and> call behave self ''/a/b/c'' type data =
        Some (behave (method_of b) type ''/a/b'' [] (if type \<noteq> ''PUT'' then ''/c'' else data)
                (note_of b) self))
   \<and> (map_of (bindings self) ''/foo/bartsimpson'' = None \<longrightarrow>
      call_route (bindings self) ''/foo/bartsimpson'' type data =
        Some (case map_of (bindings self) ''/foo'' of
                Some f \<Rightarrow>
                  Bound f type ''/foo'' [] (if type \<noteq> ''PUT'' then ''/bartsimpson'' else data)
              | None \<Rightarrow>
                  (case map_of (bindings self) ''default'' of
                     Some dflt \<Rightarrow>
                       Default dflt type (if type \<noteq> ''PUT'' then ''/foo/bartsimpson'' else data)
                   | None \<Rightarrow> Not_found))
      \<and> call behave self ''/foo/bartsimpson'' type data =
        Some (case map_of (bindings self) ''/foo'' of
                Some f \<Rightarrow>
                  behave (method_of f) type ''/foo'' []
                    (if type \<noteq> ''PUT'' then ''/bartsimpson'' else data) (note_of f) self
              | None \<Rightarrow>
                  (case map_of (bindings self) ''default'' of
                     Some dflt \<Rightarrow>
                       behave (method_of dflt) type [] []
                         (if type \<noteq> ''PUT'' then ''/foo/bartsimpson'' else data) (note_of dflt) self
                   | None \<Rightarrow> (\<lparr>resp_r = None, resp_c = Some NOT_FOUND, resp_h = None\<rparr>, self))))"
proof (intro conjI impI)
  assume a: "map_of (bindings self) ''/a/b'' = Some b \<and> map_of (bindings self) ''/a/b/c'' = None"
  with call_route_backward_segment_match [of "bindings self" b type data]
  show r: "call_route (bindings self) ''/a/b/c'' type data =
        Some (Bound b type ''/a/b'' [] (if type \<noteq> ''PUT'' then ''/c'' else data))"
    by simp
  show "call behave self ''/a/b/c'' type data =
        Some (behave (method_of b) type ''/a/b'' [] (if type \<noteq> ''PUT'' then ''/c'' else data)
                (note_of b) self)"
    by (simp add: call_def r)
next
  assume a: "map_of (bindings self) ''/foo/bartsimpson'' = None"
  with call_route_backward_segment_match [of "bindings self" b type data]
  show r: "call_route (bindings self) ''/foo/bartsimpson'' type data =
        Some (case map_of (bindings self) ''/foo'' of
                Some f \<Rightarrow>
                  Bound f type ''/foo'' [] (if type \<noteq> ''PUT'' then ''/bartsimpson'' else data)
              | None \<Rightarrow>
                  (case map_of (bindings self) ''default'' of
                     Some dflt \<Rightarrow>
                       Default dflt type (if type \<noteq> ''PUT'' then ''/foo/bartsimpson'' else data)
                   | None \<Rightarrow> Not_found))"
    by simp
  show "call behave self ''/foo/bartsimpson'' type data =
        Some (case map_of (bindings self) ''/foo'' of
                Some f \<Rightarrow>
                  behave (method_of f) type ''/foo'' []
                    (if type \<noteq> ''PUT'' then ''/bartsimpson'' else data) (note_of f) self
              | None \<Rightarrow>
                  (case map_of (bindings self) ''default'' of
                     Some dflt \<Rightarrow>
                       behave (method_of dflt) type [] []
                         (if type \<noteq> ''PUT'' then ''/foo/bartsimpson'' else data) (note_of dflt) self
                   | None \<Rightarrow> (\<lparr>resp_r = None, resp_c = Some NOT_FOUND, resp_h = None\<rparr>, self)))"
    by (simp add: call_def r split: option.splits)
qed

text \<open>
  The amended claim C1 at the dispatcher with \<^verbatim>\<open>echo\<close> bound at \<^verbatim>\<open>/a/b\<close>, \<^verbatim>\<open>/foo\<close> and
  \<^verbatim>\<open>/foo/bar\<close>, with the body that \<^verbatim>\<open>echo\<close> returns in each case.
\<close>

theorem call_backward_segment_match_witness:
  "map_of (bindings (bind (bind (bind Dispatch_init ''/a/b'' echo None) ''/foo'' echo (Some ''index''))
                       ''/foo/bar'' echo (Some ''index''))) ''/a/b''
      = Some \<lparr>method_of = echo, note_of = None\<rparr>
   \<and> call_route (bindings (bind (bind (bind Dispatch_init ''/a/b'' echo None) ''/foo'' echo (Some ''index''))
                       ''/foo/bar'' echo (Some ''index''))) ''/a/b/c'' ''GET'' []
      = Some (Bound \<lparr>method_of = echo, note_of = None\<rparr> ''GET'' ''/a/b'' [] ''/c'')
   \<and> map_option (\<lambda>res. resp_r (fst res))
        (call sample_behaviour
           (bind (bind (bind Dispatch_init ''/a/b'' echo None) ''/foo'' echo (Some ''index''))
                       ''/foo/bar'' echo (Some ''index'')) ''/a/b/c'' ''GET'' [])
      = Some (Some ''echo type:GET match:/a/b ext: rest:/c note:None'')
   \<and> call_route (bindings (bind (bind (bind Dispatch_init ''/a/b'' echo None) ''/foo'' echo (Some ''index''))
                       ''/foo/bar'' echo (Some ''index''))) ''/foo/bartsimpson'' ''GET'' []
      = Some (Bound \<lparr>method_of = echo, note_of = Some ''index''\<rparr> ''GET'' ''/foo'' [] ''/bartsimpson'')
   \<and> map_option (\<lambda>res. resp_r (fst res))
        (call sample_behaviour
           (bind (bind (bind Dispatch_init ''/a/b'' echo None) ''/foo'' echo (Some ''index''))
                       ''/foo/bar'' echo (Some ''index'')) ''/foo/bartsimpson'' ''GET'' [])
      = Some (Some (''echo type:GET match:/foo ext: rest:/bartsimpson note:'' @ [CHR 0x27] @ ''index''
                      @ [CHR 0x27]))"
  using call_backward_segment_match
    [of "bind (bind (bind Dispatch_init ''/a/b'' echo None) ''/foo'' echo (Some ''index''))
                       ''/foo/bar'' echo (Some ''index'')"
        "\<lparr>method_of = echo, note_of = None\<rparr>" "''GET''" "[]" sample_behaviour]
  by (simp add: bind_def Dispatch_init_def repr_note_def repr_str_def repr_char_def Let_def)

text \<open>
  Claim C1 as stated fails for the type \<^verbatim>\<open>PUT\<close>: the handler bound at \<^verbatim>\<open>/a/b\<close> receives the
  body as rest, not \<^verbatim>\<open>/c\<close>, and \<^verbatim>\<open>call\<close> returns what \<^verbatim>\<open>echo\<close> makes of the body.
\<close>

theorem call_PUT_rest_is_body:
  "call_route [(''/a/b'', \<lparr>method_of = echo, note_of = None\<rparr>)] ''/a/b/c'' ''PUT'' ''body''
     = Some (Bound \<lparr>method_of = echo, note_of = None\<rparr> ''PUT'' ''/a/b'' [] ''body'')
   \<and> call_route [(''/a/b'', \<lparr>method_of = echo, note_of = None\<rparr>)] ''/a/b/c'' ''PUT'' ''body''
     \<noteq> Some (Bound \<lparr>method_of = echo, note_of = None\<rparr> ''PUT'' ''/a/b'' [] ''/c'')
   \<and> call sample_behaviour (bind Dispatch_init ''/a/b'' echo None) ''/a/b/c'' ''PUT'' ''body''
     = Some (sample_behaviour echo ''PUT'' ''/a/b'' [] ''body'' None
               (bind Dispatch_init ''/a/b'' echo None))
   \<and> call sample_behaviour (bind Dispatch_init ''/a/b'' echo None) ''/a/b/c'' ''PUT'' ''body''
     \<noteq> Some (sample_behaviour echo ''PUT'' ''/a/b'' [] ''/c'' None
               (bind Dispatch_init ''/a/b'' echo None))"
  by (simp add: call_def bind_def Dispatch_init_def call_route_def call_loop.simps strip_ext_def
        str_rsplit1_def str_rpartition_def)


section \<open>Extension extraction\<close>

text \<open>
  Claim C3. With a binding at \<^verbatim>\<open>/foo/bar\<close>, \<^verbatim>\<open>call("/foo/bar.json?x=1", "GET", data)\<close> calls that
  binding's handler with match \<^verbatim>\<open>/foo/bar\<close>, extension \<^verbatim>\<open>.json\<close> and rest \<^verbatim>\<open>?x=1\<close>, and returns
  what the handler returns. In general, when the last
  \<^verbatim>\<open>/\<close>-piece of the current match holds a dot, the match splits as \<open>pre\<close>, a dot and a
  dot-free \<open>suf\<close>; the extension is the dot followed by \<open>suf\<close>, and the table is looked up
  at \<open>pre\<close>.
\<close>

theorem call_extension_extraction:
  "(map_of (bindings self) ''/foo/bar'' = Some b \<longrightarrow>
      call_route (bindings self) ''/foo/bar.json?x=1'' ''GET'' data =
        Some (Bound b ''GET'' ''/foo/bar'' ''.json'' ''?x=1'')
      \<and> call behave self ''/foo/bar.json?x=1'' ''GET'' data =
        Some (behave (method_of b) ''GET'' ''/foo/bar'' ''.json'' ''?x=1'' (note_of b) self))
   \<and> (CHR ''.'' \<in> set (last (str_split match CHR ''/'')) \<longrightarrow>
        (\<exists>pre suf. match = pre @ CHR ''.'' # suf \<and> CHR ''.'' \<notin> set suf
           \<and> strip_ext match = (pre, CHR ''.'' # suf)
           \<and> call_loop table2 url type data2 match =
               (case map_of table2 pre of
                  Some b2 \<Rightarrow>
                    Some (Some (Bound b2 type pre (CHR ''.'' # suf)
                      (if type \<noteq> ''PUT'' then drop (length (pre @ CHR ''.'' # suf)) url
                       else data2)))
                | None \<Rightarrow> call_loop table2 url type data2 (hd (str_rsplit1 pre CHR ''/'')))))"
proof (intro conjI impI)
  assume a: "map_of (bindings self) ''/foo/bar'' = Some b"
  have s: "strip_ext ''/foo/bar.json'' = (''/foo/bar'', ''.json'')"
    by (simp add: strip_ext_def str_rpartition_def)
  have q: "hd (str_rsplit1 ''/foo/bar.json?x=1'' CHR ''?'') = ''/foo/bar.json''"
    by (simp add: str_rsplit1_def str_rpartition_def)
  have "call_loop (bindings self) ''/foo/bar.json?x=1'' ''GET'' data ''/foo/bar.json''
          = Some (Some (Bound b ''GET'' ''/foo/bar'' ''.json'' ''?x=1''))"
    using call_loop_hit [of "''/foo/bar.json''" "''/foo/bar''" "''.json''" "bindings self" b
                            "''/foo/bar.json?x=1''" "''GET''" data] a
    by (simp add: s)
  then show r: "call_route (bindings self) ''/foo/bar.json?x=1'' ''GET'' data =
        Some (Bound b ''GET'' ''/foo/bar'' ''.json'' ''?x=1'')"
    by (simp add: call_route_def q)
  show "call behave self ''/foo/bar.json?x=1'' ''GET'' data =
        Some (behave (method_of b) ''GET'' ''/foo/bar'' ''.json'' ''?x=1'' (note_of b) self)"
    by (simp add: call_def r)
next
  assume dot: "CHR ''.'' \<in> set (last (str_split match CHR ''/''))"
  from strip_ext_dot [OF dot] obtain pre suf where
    m: "match = pre @ CHR ''.'' # suf" and nd: "CHR ''.'' \<notin> set suf"
    and se: "strip_ext match = (pre, CHR ''.'' # suf)"
    by (elim exE conjE)
  have ne: "match \<noteq> []" using m by simp
  have "call_loop table2 url type data2 match =
               (case map_of table2 pre of
                  Some b2 \<Rightarrow>
                    Some (Some (Bound b2 type pre (CHR ''.'' # suf)
                      (if type \<noteq> ''PUT'' then drop (length (pre @ CHR ''.'' # suf)) url
                       else data2)))
                | None \<Rightarrow> call_loop table2 url type data2 (hd (str_rsplit1 pre CHR ''/'')))"
  proof (cases "map_of table2 pre")
    case None
    then show ?thesis using call_loop_miss [OF ne se None] by simp
  next
    case (Some b2)
    then show ?thesis using call_loop_hit [OF ne se Some] by simp
  qed
  with m nd se show "\<exists>pre suf. match = pre @ CHR ''.'' # suf \<and> CHR ''.'' \<notin> set suf
           \<and> strip_ext match = (pre, CHR ''.'' # suf)
           \<and> call_loop table2 url type data2 match =
               (case map_of table2 pre of
                  Some b2 \<Rightarrow>
                    Some (Some (Bound b2 type pre (CHR ''.'' # suf)
                      (if type \<noteq> ''PUT'' then drop (length (pre @ CHR ''.'' # suf)) url
                       else data2)))
                | None \<Rightarrow> call_loop table2 url type data2 (hd (str_rsplit1 pre CHR ''/'')))"
    by (intro exI conjI)
qed

text \<open>
  Claim C3 at the dispatcher with \<^verbatim>\<open>echo\<close> bound at \<^verbatim>\<open>/foo/bar\<close>, with the body that \<^verbatim>\<open>echo\<close>
  returns, and at the match \<^verbatim>\<open>/foo/bar.json\<close>.
\<close>

theorem call_extension_extraction_witness:
  "map_of (bindings (bind Dispatch_init ''/foo/bar'' echo (Some ''index''))) ''/foo/bar''
      = Some \<lparr>method_of = echo, note_of = Some ''index''\<rparr>
   \<and> call_route (bindings (bind Dispatch_init ''/foo/bar'' echo (Some ''index'')))
         ''/foo/bar.json?x=1'' ''GET'' []
      = Some (Bound \<lparr>method_of = echo, note_of = Some ''index''\<rparr> ''GET'' ''/foo/bar'' ''.json'' ''?x=1'')
   \<and> map_option (\<lambda>res. resp_r (fst res))
        (call sample_behaviour (bind Dispatch_init ''/foo/bar'' echo (Some ''index''))
           ''/foo/bar.json?x=1'' ''GET'' [])
      = Some (Some (''echo type:GET match:/foo/bar ext:.json rest:?x=1 note:'' @ [CHR 0x27]
                      @ ''index'' @ [CHR 0x27]))
   \<and> CHR ''.'' \<in> set (last (str_split ''/foo/bar.json'' CHR ''/''))
   \<and> strip_ext ''/foo/bar.json'' = (''/foo/bar'', ''.json'')"
  using call_extension_extraction
    [where self = "bind Dispatch_init ''/foo/bar'' echo (Some ''index'')"
       and b = "\<lparr>method_of = echo, note_of = Some ''index''\<rparr>" and data = "[]"
       and behave = sample_behaviour and match = "''/foo/bar.json''"
       and ?table2.0 = "[] :: (string \<times> sample binding) list" and url = "''/foo/bar.json?x=1''"
       and type = "''GET''" and ?data2.0 = "[]"]
  by (simp add: bind_def Dispatch_init_def strip_ext_def str_rpartition_def
        repr_note_def repr_str_def repr_char_def Let_def)


section \<open>Where the query is cut off\<close>

text \<open>
  Claim C4 says that the working path is the part of the url before the first \<^verbatim>\<open>?\<close>, so
  that \<^verbatim>\<open>/a?b?c\<close> gives \<^verbatim>\<open>/a\<close>. The source takes \<^verbatim>\<open>url.rsplit('?', 1)[0]\<close>, the part before
  the last \<^verbatim>\<open>?\<close>: the working path of \<^verbatim>\<open>/a?b?c\<close> is \<^verbatim>\<open>/a?b\<close>, and a binding at \<^verbatim>\<open>/a\<close> is
  not found for that url.
\<close>

theorem call_query_cut_at_last_mark:
  "hd (str_rsplit1 ''/a?b?c'' CHR ''?'') = ''/a?b''
   \<and> call_route [(''/a'', \<lparr>method_of = echo, note_of = None\<rparr>)] ''/a?b?c'' ''GET'' []
       = Some Not_found
   \<and> call_route [(''/a'', \<lparr>method_of = echo, note_of = None\<rparr>)] ''/a?b'' ''GET'' []
       = Some (Bound \<lparr>method_of = echo, note_of = None\<rparr> ''GET'' ''/a'' [] ''?b'')"
  by (simp add: call_route_def call_loop.simps strip_ext_def str_rsplit1_def str_rpartition_def)


section \<open>The extension on later iterations\<close>

lemma rsplit1_hd_subset: "set (hd (str_rsplit1 s sep)) \<subseteq> set s"
proof (cases "sep \<in> set s")
  case True
  then obtain h t where dec: "s = h @ sep # t" "sep \<notin> set t"
    by (rule split_lastE)
  have "hd (str_rsplit1 (h @ sep # t) sep) = h"
    using dec(2) by (simp add: rsplit1_last)
  then have "set (hd (str_rsplit1 (h @ sep # t) sep)) \<subseteq> set (h @ sep # t)"
    by auto
  then show ?thesis unfolding dec(1) .
next
  case False
  then show ?thesis by (simp add: rsplit1_none)
qed

lemma rsplit1_hd_length: "length (hd (str_rsplit1 s sep)) \<le> length s"
proof (cases "sep \<in> set s")
  case True
  then obtain h t where dec: "s = h @ sep # t" "sep \<notin> set t"
    by (rule split_lastE)
  have "hd (str_rsplit1 (h @ sep # t) sep) = h"
    using dec(2) by (simp add: rsplit1_last)
  then have "length (hd (str_rsplit1 (h @ sep # t) sep)) \<le> length (h @ sep # t)"
    by simp
  then show ?thesis unfolding dec(1) .
next
  case False
  then show ?thesis by (simp add: rsplit1_none)
qed

lemma call_loop_dotfree_aux:
  fixes t :: "(string \<times> 'h binding) list"
  assumes ret: "call_loop t u ty d m = Some y"
  shows "CHR ''.'' \<notin> set m \<longrightarrow> (\<forall>b ty' mm e r. y = Some (Bound b ty' mm e r) \<longrightarrow> e = [])"
proof (rule call_loop.raw_induct
    [where P = "\<lambda>t u ty d m y. CHR ''.'' \<notin> set m \<longrightarrow>
                   (\<forall>b ty' mm e r. y = Some (Bound b ty' mm e r) \<longrightarrow> e = [])", OF _ ret])
  fix f :: "(string \<times> 'h binding) list \<Rightarrow> string \<Rightarrow> string \<Rightarrow> string \<Rightarrow> string
              \<Rightarrow> 'h route option option"
  fix t u ty d m y
  assume IH: "\<And>t u ty d m y. f t u ty d m = Some y \<Longrightarrow>
     CHR ''.'' \<notin> set m \<longrightarrow> (\<forall>b ty' mm e r. y = Some (Bound b ty' mm e r) \<longrightarrow> e = [])"
  assume body: "(if 0 < length m then
        (case strip_ext m of (match', ext) \<Rightarrow>
           (case map_of t match' of
              None \<Rightarrow> f t u ty d (hd (str_rsplit1 match' CHR ''/''))
            | Some b \<Rightarrow>
                Some (Some (Bound b ty match' ext
                  (if ty \<noteq> ''PUT'' then drop (length (match' @ ext)) u else d)))))
      else Some None) = Some y"
  show "CHR ''.'' \<notin> set m \<longrightarrow> (\<forall>b ty' mm e r. y = Some (Bound b ty' mm e r) \<longrightarrow> e = [])"
  proof
    assume nd: "CHR ''.'' \<notin> set m"
    have "CHR ''.'' \<notin> set (last (str_split m CHR ''/''))"
      using nd last_split_subset [of m "CHR ''/''"] by blast
    then have se: "strip_ext m = (m, [])" by (rule strip_ext_nodot)
    show "\<forall>b ty' mm e r. y = Some (Bound b ty' mm e r) \<longrightarrow> e = []"
    proof (cases "m = []")
      case True
      with body show ?thesis by simp
    next
      case False
      show ?thesis
      proof (cases "map_of t m")
        case (Some b)
        with body False se have "y = Some (Bound b ty m []
            (if ty \<noteq> ''PUT'' then drop (length (m @ [])) u else d))" by simp
        then show ?thesis by simp
      next
        case None
        with body False se have "f t u ty d (hd (str_rsplit1 m CHR ''/'')) = Some y" by simp
        moreover have "CHR ''.'' \<notin> set (hd (str_rsplit1 m CHR ''/''))"
          using nd rsplit1_hd_subset [of m "CHR ''/''"] by blast
        ultimately show ?thesis using IH by blast
      qed
    qed
  qed
qed

lemma call_loop_dotfree:
  "call_loop t u ty d m = Some (Some (Bound b ty' mm e r)) \<Longrightarrow> CHR ''.'' \<notin> set m \<Longrightarrow> e = []"
  using call_loop_dotfree_aux [of t u ty d m "Some (Bound b ty' mm e r)"] by simp

lemma strip_ext_last_piece:
  assumes "CHR ''/'' \<notin> set seg"
  shows "\<exists>seg' e. strip_ext (pre @ CHR ''/'' # seg) = (pre @ CHR ''/'' # seg', e)
                   \<and> CHR ''/'' \<notin> set seg'"
proof (cases "CHR ''.'' \<in> set seg")
  case True
  then obtain h t where dec: "seg = h @ CHR ''.'' # t" "CHR ''.'' \<notin> set t"
    by (rule split_lastE)
  have l: "last (str_split (pre @ CHR ''/'' # seg) CHR ''/'') = seg"
    using assms by (rule last_split_last)
  have neq: "snd (snd (str_rpartition seg CHR ''.'')) \<noteq> seg"
    unfolding dec(1) using dec(2) by (simp add: rpart_last)
  have "str_rpartition ((pre @ CHR ''/'' # h) @ CHR ''.'' # t) CHR ''.''
          = (pre @ CHR ''/'' # h, [CHR ''.''], t)"
    using dec(2) by (rule rpart_last)
  then have "str_rpartition (pre @ CHR ''/'' # seg) CHR ''.''
          = (pre @ CHR ''/'' # h, [CHR ''.''], t)"
    using dec(1) by simp
  then have "strip_ext (pre @ CHR ''/'' # seg) = (pre @ CHR ''/'' # h, CHR ''.'' # t)"
    using l neq by (simp add: strip_ext_def)
  moreover have "CHR ''/'' \<notin> set h" using assms dec(1) by simp
  ultimately show ?thesis by blast
next
  case False
  have l: "last (str_split (pre @ CHR ''/'' # seg) CHR ''/'') = seg"
    using assms by (rule last_split_last)
  have "strip_ext (pre @ CHR ''/'' # seg) = (pre @ CHR ''/'' # seg, [])"
    using False l by (simp add: strip_ext_nodot)
  with assms show ?thesis by blast
qed

text \<open>
  Claim C5, amended. When the working path is \<open>pre\<close>, a \<^verbatim>\<open>/\<close> and a last piece \<open>seg\<close>
  without \<^verbatim>\<open>/\<close>, and \<open>pre\<close> holds no dot, a hit on any iteration after the first passes
  the empty extension to the handler. (A dot in \<open>pre\<close> can come back as the extension of
  a later iteration, see the example after this theorem.)
\<close>

theorem call_later_hit_has_no_extension:
  assumes "hd (str_rsplit1 url CHR ''?'') = pre @ CHR ''/'' # seg"
    and "CHR ''/'' \<notin> set seg"
    and "CHR ''.'' \<notin> set pre"
    and "map_of table (fst (strip_ext (pre @ CHR ''/'' # seg))) = None"
    and "call_route table url type data = Some (Bound b type' match ext rest)"
  shows "ext = []"
proof -
  from strip_ext_last_piece [OF assms(2), of pre] obtain seg' e where
    se: "strip_ext (pre @ CHR ''/'' # seg) = (pre @ CHR ''/'' # seg', e)"
    and ns: "CHR ''/'' \<notin> set seg'"
    by (elim exE conjE)
  have miss: "map_of table (pre @ CHR ''/'' # seg') = None"
    using assms(4) se by simp
  have nxt: "hd (str_rsplit1 (pre @ CHR ''/'' # seg') CHR ''/'') = pre"
    using ns by (simp add: rsplit1_last)
  have "call_loop table url type data (pre @ CHR ''/'' # seg) = call_loop table url type data pre"
    using call_loop_miss [OF _ se miss] nxt by simp
  moreover have "call_loop table url type data (pre @ CHR ''/'' # seg)
                   = Some (Some (Bound b type' match ext rest))"
    using assms(5) unfolding call_route_def assms(1)
    by (auto split: option.splits)
  ultimately have "call_loop table url type data pre = Some (Some (Bound b type' match ext rest))"
    by simp
  then show ?thesis using assms(3) by (rule call_loop_dotfree)
qed

text \<open>
  The amended claim C5 at \<^verbatim>\<open>/a/b/c.json?q\<close> with one binding, at \<^verbatim>\<open>/a/b\<close>: the first
  iteration misses at \<^verbatim>\<open>/a/b/c\<close>, the second hits with an empty extension.
\<close>

theorem call_later_hit_has_no_extension_witness:
  "hd (str_rsplit1 ''/a/b/c.json?q'' CHR ''?'') = ''/a/b'' @ CHR ''/'' # ''c.json''
   \<and> CHR ''/'' \<notin> set ''c.json''
   \<and> CHR ''.'' \<notin> set ''/a/b''
   \<and> map_of [(''/a/b'', \<lparr>method_of = echo, note_of = None\<rparr>)]
        (fst (strip_ext (''/a/b'' @ CHR ''/'' # ''c.json''))) = None
   \<and> call_route [(''/a/b'', \<lparr>method_of = echo, note_of = None\<rparr>)] ''/a/b/c.json?q'' ''GET'' []
        = Some (Bound \<lparr>method_of = echo, note_of = None\<rparr> ''GET'' ''/a/b'' [] ''/c.json?q'')
   \<and> ([] :: string) = []"
  using call_later_hit_has_no_extension
    [of "''/a/b/c.json?q''" "''/a/b''" "''c.json''"
        "[(''/a/b'', \<lparr>method_of = echo, note_of = None\<rparr>)]" "''GET''" "[]"
        "\<lparr>method_of = echo, note_of = None\<rparr>" "''GET''" "''/a/b''" "[]" "''/c.json?q''"]
  by (simp add: call_route_def call_loop.simps strip_ext_def str_rsplit1_def str_rpartition_def)

text \<open>
  Claim C5 as stated fails: for \<^verbatim>\<open>/a.b/c\<close> against a binding at \<^verbatim>\<open>/a\<close> the first iteration
  misses at \<^verbatim>\<open>/a.b/c\<close>, the second works on \<^verbatim>\<open>/a.b\<close>, takes \<^verbatim>\<open>.b\<close> as extension and hits
  \<^verbatim>\<open>/a\<close>.
\<close>

theorem call_later_hit_with_extension:
  "map_of [(''/a'', \<lparr>method_of = echo, note_of = None\<rparr>)] (fst (strip_ext ''/a.b/c'')) = None
   \<and> call_route [(''/a'', \<lparr>method_of = echo, note_of = None\<rparr>)] ''/a.b/c'' ''GET'' []
        = Some (Bound \<lparr>method_of = echo, note_of = None\<rparr> ''GET'' ''/a'' ''.b'' ''/c'')"
  by (simp add: call_route_def call_loop.simps strip_ext_def str_rsplit1_def str_rpartition_def)


section \<open>Bindings at a path with a dotted last piece\<close>

lemma strip_ext_fst_length: "length (fst (strip_ext m)) \<le> length m"
proof -
  obtain m' e where se: "strip_ext m = (m', e)" by (cases "strip_ext m")
  then have "m = m' @ e" by (rule strip_ext_app)
  then have "length m' \<le> length m" by simp
  with se show ?thesis by simp
qed

lemma call_loop_match_length_aux:
  fixes t :: "(string \<times> 'h binding) list"
  assumes ret: "call_loop t u ty d m = Some y"
  shows "\<forall>b ty' mm e r. y = Some (Bound b ty' mm e r) \<longrightarrow> length mm \<le> length (fst (strip_ext m))"
proof (rule call_loop.raw_induct
    [where P = "\<lambda>t u ty d m y. \<forall>b ty' mm e r. y = Some (Bound b ty' mm e r) \<longrightarrow>
                   length mm \<le> length (fst (strip_ext m))", OF _ ret])
  fix f :: "(string \<times> 'h binding) list \<Rightarrow> string \<Rightarrow> string \<Rightarrow> string \<Rightarrow> string
              \<Rightarrow> 'h route option option"
  fix t u ty d m y
  assume IH: "\<And>t u ty d m y. f t u ty d m = Some y \<Longrightarrow>
     \<forall>b ty' mm e r. y = Some (Bound b ty' mm e r) \<longrightarrow> length mm \<le> length (fst (strip_ext m))"
  assume body: "(if 0 < length m then
        (case strip_ext m of (match', ext) \<Rightarrow>
           (case map_of t match' of
              None \<Rightarrow> f t u ty d (hd (str_rsplit1 match' CHR ''/''))
            | Some b \<Rightarrow>
                Some (Some (Bound b ty match' ext
                  (if ty \<noteq> ''PUT'' then drop (length (match' @ ext)) u else d)))))
      else Some None) = Some y"
  obtain m' e' where se: "strip_ext m = (m', e')" by (cases "strip_ext m")
  show "\<forall>b ty' mm e r. y = Some (Bound b ty' mm e r) \<longrightarrow> length mm \<le> length (fst (strip_ext m))"
  proof (cases "m = []")
    case True
    with body show ?thesis by simp
  next
    case False
    show ?thesis
    proof (cases "map_of t m'")
      case (Some b)
      with body False se have "y = Some (Bound b ty m' e'
            (if ty \<noteq> ''PUT'' then drop (length (m' @ e')) u else d))" by simp
      then show ?thesis using se by simp
    next
      case None
      with body False se have "f t u ty d (hd (str_rsplit1 m' CHR ''/'')) = Some y" by simp
      from IH [OF this] have
        "\<forall>b ty' mm e r. y = Some (Bound b ty' mm e r) \<longrightarrow>
            length mm \<le> length (fst (strip_ext (hd (str_rsplit1 m' CHR ''/''))))" .
      moreover have "length (fst (strip_ext (hd (str_rsplit1 m' CHR ''/'')))) \<le> length m'"
        using strip_ext_fst_length [of "hd (str_rsplit1 m' CHR ''/'')"]
              rsplit1_hd_length [of m' "CHR ''/''"] by linarith
      ultimately show ?thesis using se by fastforce
    qed
  qed
qed

lemma call_loop_match_length:
  "call_loop t u ty d m = Some (Some (Bound b ty' mm e r)) \<Longrightarrow>
   length mm \<le> length (fst (strip_ext m))"
  using call_loop_match_length_aux [of t u ty d m "Some (Bound b ty' mm e r)"] by simp

lemma call_route_Bound_loop:
  "call_route t u ty d = Some (Bound b ty' mm e r) \<Longrightarrow>
   call_loop t u ty d (hd (str_rsplit1 u CHR ''?'')) = Some (Some (Bound b ty' mm e r))"
  by (auto simp: call_route_def split: option.splits)

text \<open>
  Claim C8. When the last \<^verbatim>\<open>/\<close>-piece of a path \<open>p\<close> holds a dot, \<^verbatim>\<open>call(p, ...)\<close> never
  calls a handler for the key \<open>p\<close>: every key that hits is strictly shorter than \<open>p\<close>.
  With no binding at \<^verbatim>\<open>/foo\<close>, \<^verbatim>\<open>call("/foo.json", ...)\<close> ends at the default binding or at
  the 404 dictionary, whatever is bound at \<^verbatim>\<open>/foo.json\<close>.
\<close>

theorem call_never_matches_dotted_path:
  "(CHR ''.'' \<in> set (last (str_split p CHR ''/''))
      \<and> call_route table p type data = Some (Bound b type' match ext rest)
      \<longrightarrow> match \<noteq> p \<and> length match < length p)
   \<and> (map_of table2 ''/foo'' = None \<longrightarrow>
        call_route table2 ''/foo.json'' type2 data2 =
          Some (case map_of table2 ''default'' of
                  Some dflt \<Rightarrow>
                    Default dflt type2 (if type2 \<noteq> ''PUT'' then ''/foo.json'' else data2)
                | None \<Rightarrow> Not_found))"
proof (intro conjI impI)
  assume a: "CHR ''.'' \<in> set (last (str_split p CHR ''/''))
      \<and> call_route table p type data = Some (Bound b type' match ext rest)"
  then have dot: "CHR ''.'' \<in> set (last (str_split p CHR ''/''))"
    and "call_route table p type data = Some (Bound b type' match ext rest)"
    by simp_all
  then have "call_loop table p type data (hd (str_rsplit1 p CHR ''?''))
               = Some (Some (Bound b type' match ext rest))"
    by (simp add: call_route_Bound_loop)
  then have le: "length match \<le> length (fst (strip_ext (hd (str_rsplit1 p CHR ''?''))))"
    by (rule call_loop_match_length)
  have "length (fst (strip_ext (hd (str_rsplit1 p CHR ''?'')))) < length p"
  proof (cases "CHR ''?'' \<in> set p")
    case True
    then obtain h t where dec: "p = h @ CHR ''?'' # t" "CHR ''?'' \<notin> set t"
      by (rule split_lastE)
    have "hd (str_rsplit1 (h @ CHR ''?'' # t) CHR ''?'') = h"
      using dec(2) by (simp add: rsplit1_last)
    then have "hd (str_rsplit1 p CHR ''?'') = h" using dec(1) by simp
    moreover have "length (fst (strip_ext h)) \<le> length h" by (rule strip_ext_fst_length)
    moreover have "length h < length p" using dec(1) by simp
    ultimately show ?thesis by simp
  next
    case False
    then have same: "hd (str_rsplit1 p CHR ''?'') = p" by (simp add: rsplit1_none)
    from strip_ext_dot [OF dot] obtain pre suf where
      "p = pre @ CHR ''.'' # suf" and "strip_ext p = (pre, CHR ''.'' # suf)"
      by (elim exE conjE)
    then have "length (fst (strip_ext p)) < length p" by simp
    with same show ?thesis by simp
  qed
  with le have "length match < length p" by simp
  then show "match \<noteq> p" and "length match < length p" by auto
next
  assume a: "map_of table2 ''/foo'' = None"
  have s: "strip_ext ''/foo.json'' = (''/foo'', ''.json'')"
    by (simp add: strip_ext_def str_rpartition_def)
  have q: "hd (str_rsplit1 ''/foo.json'' CHR ''?'') = ''/foo.json''"
    by (simp add: str_rsplit1_def str_rpartition_def)
  have n: "hd (str_rsplit1 ''/foo'' CHR ''/'') = []"
    by (simp add: str_rsplit1_def str_rpartition_def)
  have "call_loop table2 ''/foo.json'' type2 data2 ''/foo.json''
          = call_loop table2 ''/foo.json'' type2 data2 []"
    using call_loop_miss [of "''/foo.json''" "''/foo''" "''.json''" table2] a
    by (simp add: s n)
  then show "call_route table2 ''/foo.json'' type2 data2 =
          Some (case map_of table2 ''default'' of
                  Some dflt \<Rightarrow>
                    Default dflt type2 (if type2 \<noteq> ''PUT'' then ''/foo.json'' else data2)
                | None \<Rightarrow> Not_found)"
    by (simp add: call_route_def q call_loop_Nil split: option.splits)
qed

text \<open>
  Claim C8 at the path \<^verbatim>\<open>/foo.json\<close>: with bindings at \<^verbatim>\<open>/foo\<close> and at \<^verbatim>\<open>/foo.json\<close> the
  call goes to \<^verbatim>\<open>/foo\<close>; with a binding at \<^verbatim>\<open>/foo.json\<close> only, the result is the 404
  dictionary.
\<close>

theorem call_never_matches_dotted_path_witness:
  "CHR ''.'' \<in> set (last (str_split ''/foo.json'' CHR ''/''))
   \<and> call_route [(''/foo'', \<lparr>method_of = echo, note_of = Some ''index''\<rparr>),
                  (''/foo.json'', \<lparr>method_of = echo, note_of = None\<rparr>)] ''/foo.json'' ''GET'' []
        = Some (Bound \<lparr>method_of = echo, note_of = Some ''index''\<rparr> ''GET'' ''/foo'' ''.json'' [])
   \<and> ''/foo'' \<noteq> ''/foo.json''
   \<and> map_of [(''/foo.json'', \<lparr>method_of = echo, note_of = None\<rparr>)] ''/foo'' = None
   \<and> call_route [(''/foo.json'', \<lparr>method_of = echo, note_of = None\<rparr>)] ''/foo.json'' ''GET'' []
        = Some Not_found"
  using call_never_matches_dotted_path
    [of "''/foo.json''"
        "[(''/foo'', \<lparr>method_of = echo, note_of = Some ''index''\<rparr>),
          (''/foo.json'', \<lparr>method_of = echo, note_of = None\<rparr>)]" "''GET''" "[]"
        "\<lparr>method_of = echo, note_of = Some ''index''\<rparr>" "''GET''" "''/foo''" "''.json''" "[]"
        "[(''/foo.json'', \<lparr>method_of = echo, note_of = None\<rparr>)]" "''GET''" "[]"]
  by (simp add: call_route_def call_loop.simps strip_ext_def str_rsplit1_def str_rpartition_def)


section \<open>Urls with an empty working path\<close>

lemma call_route_empty_working_path:
  "hd (str_rsplit1 url CHR ''?'') = [] \<Longrightarrow>
   call_route table url type data =
     Some (case map_of table ''default'' of
             Some dflt \<Rightarrow> Default dflt type (if type \<noteq> ''PUT'' then url else data)
           | None \<Rightarrow> Not_found)"
  by (simp add: call_route_def call_loop_Nil split: option.splits)

lemma empty_working_path_iff:
  "hd (str_rsplit1 url CHR ''?'') = [] \<longleftrightarrow>
     url = [] \<or> (\<exists>q. url = CHR ''?'' # q \<and> CHR ''?'' \<notin> set q)"
proof (cases "CHR ''?'' \<in> set url")
  case True
  then obtain h t where dec: "url = h @ CHR ''?'' # t" "CHR ''?'' \<notin> set t"
    by (rule split_lastE)
  have "hd (str_rsplit1 (h @ CHR ''?'' # t) CHR ''?'') = h"
    using dec(2) by (simp add: rsplit1_last)
  then have hd: "hd (str_rsplit1 url CHR ''?'') = h" using dec(1) by simp
  show ?thesis
  proof
    assume "hd (str_rsplit1 url CHR ''?'') = []"
    with hd dec show "url = [] \<or> (\<exists>q. url = CHR ''?'' # q \<and> CHR ''?'' \<notin> set q)" by simp
  next
    assume "url = [] \<or> (\<exists>q. url = CHR ''?'' # q \<and> CHR ''?'' \<notin> set q)"
    then obtain q where q: "url = CHR ''?'' # q" "CHR ''?'' \<notin> set q"
      using dec(1) by auto
    have "h = []"
    proof (cases h)
      case Nil
      then show ?thesis .
    next
      case (Cons x xs)
      with dec(1) q(1) have "q = xs @ CHR ''?'' # t" by simp
      with q(2) show ?thesis by simp
    qed
    with hd show "hd (str_rsplit1 url CHR ''?'') = []" by simp
  qed
next
  case False
  then show ?thesis by (auto simp: rsplit1_none)
qed

text \<open>
  Claim C9 says that for every url that is empty or begins with \<^verbatim>\<open>?\<close> the loop is skipped
  and no regular binding is called. The url \<^verbatim>\<open>?a?b\<close> begins with \<^verbatim>\<open>?\<close>, but the source cuts
  it at its last \<^verbatim>\<open>?\<close>: the working path is \<^verbatim>\<open>?a\<close>, the loop runs, a binding at \<^verbatim>\<open>?a\<close> is
  called, and with an empty table the call does not return.
\<close>

theorem call_query_only_url_enters_loop:
  "hd (str_rsplit1 ''?a?b'' CHR ''?'') = ''?a''
   \<and> call_route [(''?a'', \<lparr>method_of = echo, note_of = None\<rparr>)] ''?a?b'' ''GET'' []
       = Some (Bound \<lparr>method_of = echo, note_of = None\<rparr> ''GET'' ''?a'' [] ''?b'')
   \<and> call_route [] ''?a?b'' ''GET'' [] = None"
proof (intro conjI)
  show "hd (str_rsplit1 ''?a?b'' CHR ''?'') = ''?a''"
    by (simp add: str_rsplit1_def str_rpartition_def)
  show "call_route [(''?a'', \<lparr>method_of = echo, note_of = None\<rparr>)] ''?a?b'' ''GET'' []
       = Some (Bound \<lparr>method_of = echo, note_of = None\<rparr> ''GET'' ''?a'' [] ''?b'')"
    by (simp add: call_route_def call_loop.simps strip_ext_def str_rsplit1_def str_rpartition_def)
  show "call_route [] ''?a?b'' ''GET'' [] = None"
    by (simp add: call_route_def call_loop_stuck str_rsplit1_def str_rpartition_def)
qed


section \<open>The request handler and the not-found result\<close>

lemma do_all_not_found:
  assumes "type \<noteq> ''PUT''"
    and "call behave self (path req) type [] = Some (res, self')"
    and "resp_c res = Some NOT_FOUND"
  shows "do_all responses behave self req type = Some (Returned None, [])"
  using assms by (simp add: do_all_def)

lemma call_nothing:
  fixes behave :: "'h behaviour"
  shows "call behave Dispatch_init ''/nothing'' type data
   = Some (\<lparr>resp_r = None, resp_c = Some NOT_FOUND, resp_h = None\<rparr>, Dispatch_init)"
proof -
  define table where "table = ([] :: (string \<times> 'h binding) list)"
  have s: "strip_ext ''/nothing'' = (''/nothing'', [])"
    by (simp add: strip_ext_def str_rpartition_def)
  have q: "hd (str_rsplit1 ''/nothing'' CHR ''?'') = ''/nothing''"
    by (simp add: str_rsplit1_def str_rpartition_def)
  have n: "hd (str_rsplit1 ''/nothing'' CHR ''/'') = []"
    by (simp add: str_rsplit1_def str_rpartition_def)
  have "call_loop table ''/nothing'' type data ''/nothing''
          = call_loop table ''/nothing'' type data []"
    using call_loop_miss [of "''/nothing''" "''/nothing''" "[]" table]
    by (simp add: s n table_def)
  then have "call_route table ''/nothing'' type data = Some Not_found"
    by (simp add: call_route_def q call_loop_Nil table_def)
  then show ?thesis by (simp add: call_def Dispatch_init_def table_def)
qed

text \<open>
  Claim C6 says that the handler declines to write a response only for a \<^verbatim>\<open>GET\<close> with a
  not-found result, and that every other request with a not-found result still gets a
  response. In the source \<^verbatim>\<open>do_all\<close> returns \<^verbatim>\<open>None\<close> on a not-found result whatever the
  type is, and only \<^verbatim>\<open>do_GET\<close> looks at the returned value: for a \<^verbatim>\<open>POST\<close> or a \<^verbatim>\<open>DELETE\<close> to
  an unbound path nothing at all is written, and for a \<^verbatim>\<open>PUT\<close> only the interim
  \<^verbatim>\<open>100 Continue\<close> line.
\<close>

theorem do_all_not_found_writes_nothing:
  "do_all responses behave Dispatch_init \<lparr>path = ''/nothing'', content_length = None, rfile = []\<rparr> ''POST''
      = Some (Returned None, [])
   \<and> do_POST responses behave Dispatch_init \<lparr>path = ''/nothing'', content_length = None, rfile = []\<rparr>
      = Some []
   \<and> do_DELETE responses behave Dispatch_init \<lparr>path = ''/nothing'', content_length = None, rfile = []\<rparr>
      = Some []
   \<and> do_PUT responses behave Dispatch_init \<lparr>path = ''/nothing'', content_length = None, rfile = []\<rparr>
      = Some (case responses 100 of None \<Rightarrow> [] | Some msg \<Rightarrow> [Send_response 100 msg])
   \<and> do_GET responses behave Dispatch_init \<lparr>path = ''/nothing'', content_length = None, rfile = []\<rparr>
      = Some [SimpleHTTP_do_GET]"
  by (simp add: do_POST_def do_DELETE_def do_PUT_def do_GET_def do_all_def call_nothing
        read_data_def CONTINUE_def split: option.splits)


section \<open>The binding table under the operations\<close>











section \<open>The debug flags\<close>

lemma debug_run_Cons: "debug_run st (c # cs) = debug_run (debug_step st c) cs"
  by (simp add: debug_run_def)

lemma debug_run_Nil: "debug_run st [] = st"
  by (simp add: debug_run_def)

lemma debug_run_keeps_set:
  "w \<in> dom (vars st) \<Longrightarrow>
   \<forall>c\<in>set calls. c \<noteq> Call_DebugUnset w \<and> c \<noteq> Call_DebugUnset '' '' \<Longrightarrow>
   w \<in> dom (vars (debug_run st calls))"
proof (induction calls arbitrary: st)
  case Nil
  then show ?case by (simp add: debug_run_Nil)
next
  case (Cons c cs)
  have "w \<in> dom (vars (debug_step st c))"
  proof (cases c)
    case (Call_Debug n)
    with Cons.prems show ?thesis by simp
  next
    case (Call_DebugSet n)
    with Cons.prems show ?thesis by (simp add: DebugSet_def)
  next
    case (Call_DebugUnset n)
    with Cons.prems have "n \<noteq> w" "n \<noteq> '' ''" by auto
    with Call_DebugUnset Cons.prems(1) show ?thesis
      by (auto simp: DebugUnset_def split: option.splits)
  qed
  moreover have "\<forall>c\<in>set cs. c \<noteq> Call_DebugUnset w \<and> c \<noteq> Call_DebugUnset '' ''"
    using Cons.prems(2) by simp
  ultimately show ?case using Cons.IH by (simp add: debug_run_Cons)
qed

lemma debug_run_keeps_unset:
  "w \<notin> dom (vars st) \<Longrightarrow> \<forall>c\<in>set calls. c \<noteq> Call_DebugSet w \<Longrightarrow>
   w \<notin> dom (vars (debug_run st calls))"
proof (induction calls arbitrary: st)
  case Nil
  then show ?case by (simp add: debug_run_Nil)
next
  case (Cons c cs)
  have "w \<notin> dom (vars (debug_step st c))"
  proof (cases c)
    case (Call_Debug n)
    with Cons.prems show ?thesis by simp
  next
    case (Call_DebugSet n)
    with Cons.prems have "n \<noteq> w" by auto
    with Call_DebugSet Cons.prems(1) show ?thesis by (auto simp: DebugSet_def)
  next
    case (Call_DebugUnset n)
    with Cons.prems(1) show ?thesis
      by (auto simp: DebugUnset_def split: option.splits if_splits)
  qed
  moreover have "\<forall>c\<in>set cs. c \<noteq> Call_DebugSet w"
    using Cons.prems(2) by simp
  ultimately show ?case using Cons.IH by (simp add: debug_run_Cons)
qed

lemma DebugUnset_removes: "w \<notin> dom (vars (DebugUnset st w))"
  by (auto simp: DebugUnset_def split: option.splits)

text \<open>
  Claim C10. After \<^verbatim>\<open>DebugSet(w)\<close>, \<^verbatim>\<open>Debug(w)\<close> is true after any further calls that hold
  neither \<^verbatim>\<open>DebugUnset(w)\<close> nor \<^verbatim>\<open>DebugUnset()\<close>; after \<^verbatim>\<open>DebugUnset(w)\<close>, \<^verbatim>\<open>Debug(w)\<close> is false
  after any further calls that hold no \<^verbatim>\<open>DebugSet(w)\<close>; after \<^verbatim>\<open>DebugUnset()\<close>, \<^verbatim>\<open>Debug(v)\<close>
  is false for every word \<open>v\<close>, the default one-blank word included, after any further
  calls that hold no \<^verbatim>\<open>DebugSet\<close>.
\<close>

theorem debug_set_unset_roundtrip:
  "((\<forall>c\<in>set calls1. c \<noteq> Call_DebugUnset w \<and> c \<noteq> Call_DebugUnset '' '') \<longrightarrow>
      Debug (debug_run (snd (DebugSet st w)) calls1) w)
   \<and> ((\<forall>c\<in>set calls2. c \<noteq> Call_DebugSet w) \<longrightarrow>
      \<not> Debug (debug_run (DebugUnset st w) calls2) w)
   \<and> ((\<forall>c\<in>set calls3. \<forall>n. c \<noteq> Call_DebugSet n) \<longrightarrow>
      \<not> Debug (debug_run (DebugUnset st '' '') calls3) v)"
proof (intro conjI impI)
  assume a: "\<forall>c\<in>set calls1. c \<noteq> Call_DebugUnset w \<and> c \<noteq> Call_DebugUnset '' ''"
  have "w \<in> dom (vars (snd (DebugSet st w)))" by (simp add: DebugSet_def)
  then have "w \<in> dom (vars (debug_run (snd (DebugSet st w)) calls1))"
    using a by (rule debug_run_keeps_set)
  then show "Debug (debug_run (snd (DebugSet st w)) calls1) w"
    by (simp add: Debug_def)
next
  assume a: "\<forall>c\<in>set calls2. c \<noteq> Call_DebugSet w"
  have "w \<notin> dom (vars (DebugUnset st w))" by (rule DebugUnset_removes)
  then have "w \<notin> dom (vars (debug_run (DebugUnset st w) calls2))"
    using a by (rule debug_run_keeps_unset)
  then show "\<not> Debug (debug_run (DebugUnset st w) calls2) w"
    by (simp add: Debug_def)
next
  assume a: "\<forall>c\<in>set calls3. \<forall>n. c \<noteq> Call_DebugSet n"
  have "v \<notin> dom (vars (DebugUnset st '' ''))" by (simp add: DebugUnset_def)
  moreover have "\<forall>c\<in>set calls3. c \<noteq> Call_DebugSet v" using a by blast
  ultimately have "v \<notin> dom (vars (debug_run (DebugUnset st '' '') calls3))"
    by (rule debug_run_keeps_unset)
  then show "\<not> Debug (debug_run (DebugUnset st '' '') calls3) v"
    by (simp add: Debug_def)
qed

text \<open>
  Claim C10 from the state of a process started with \<^verbatim>\<open>DEBUG\<close> set to \<^verbatim>\<open>foo\<close>, for the word
  \<^verbatim>\<open>http\<close> and three short runs of further calls.
\<close>

theorem debug_set_unset_roundtrip_witness:
  "Debug (debug_run (snd (DebugSet \<lparr>vars = [''foo'' \<mapsto> ''foo'', '' '' \<mapsto> '' ''], debug = True\<rparr> ''http''))
            [Call_Debug ''http'', Call_DebugSet ''x'', Call_DebugUnset ''x'']) ''http''
   \<and> \<not> Debug (debug_run (DebugUnset \<lparr>vars = [''foo'' \<mapsto> ''foo'', '' '' \<mapsto> '' ''], debug = True\<rparr> ''http'')
            [Call_DebugSet ''x'', Call_Debug ''http'']) ''http''
   \<and> \<not> Debug (debug_run (DebugUnset \<lparr>vars = [''foo'' \<mapsto> ''foo'', '' '' \<mapsto> '' ''], debug = True\<rparr> '' '')
            [Call_Debug ''foo'', Call_DebugUnset ''x'']) ''foo''"
  using debug_set_unset_roundtrip
    [of "[Call_Debug ''http'', Call_DebugSet ''x'', Call_DebugUnset ''x'']" "''http''"
        "\<lparr>vars = [''foo'' \<mapsto> ''foo'', '' '' \<mapsto> '' ''], debug = True\<rparr>"
        "[Call_DebugSet ''x'', Call_Debug ''http'']"
        "[Call_Debug ''foo'', Call_DebugUnset ''x'']" "''foo''"]
  by simp

end
